theory Spec2Isabelle
  imports Main "HOL-Library.Char_ord" "HOL-Library.List_Lexorder" "HOL-Library.Multiset"
    "HOL-Library.Sublist"
begin

section \<open>Strings\<close>

text \<open>
  Python strings are sequences of code points. They are modelled as HOL strings, read as
  sequences of code points below 256 (the Latin-1 range); the string methods below are the
  restrictions of \<^verbatim>\<open>str.isspace\<close>, \<^verbatim>\<open>str.lower\<close>, \<^verbatim>\<open>str.replace\<close>, \<^verbatim>\<open>str.split\<close>,
  \<^verbatim>\<open>str.strip\<close> and \<^verbatim>\<open>str.join\<close> to that range.
\<close>

definition LF :: char where
  "LF = CHR 0x0A"

definition CR :: char where
  "CR = CHR 0x0D"

definition isspace :: "char \<Rightarrow> bool" where
  \<comment> \<open>the code points below 256 that Python counts as whitespace\<close>
  "isspace c = (of_char c \<in> {9, 10, 11, 12, 13, 28, 29, 30, 31, 32, 133, 160 :: nat})"

definition lower_char :: "char \<Rightarrow> char" where
  \<comment> \<open>A-Z, and the upper-case letters of Latin-1 (0xC0-0xDE without the sign 0xD7)\<close>
  "lower_char c =
     (let n = of_char c :: nat
      in if (65 \<le> n \<and> n \<le> 90) \<or> (192 \<le> n \<and> n \<le> 214) \<or> (216 \<le> n \<and> n \<le> 222)
         then char_of (n + 32) else c)"

definition str_lower :: "string \<Rightarrow> string" where
  "str_lower s = map lower_char s"

definition str_replace :: "string \<Rightarrow> char \<Rightarrow> string \<Rightarrow> string" where
  \<comment> \<open>\<^verbatim>\<open>t.replace(c, new)\<close> for a pattern \<^verbatim>\<open>c\<close> of one character\<close>
  "str_replace t c new = concat (map (\<lambda>x. if x = c then new else [x]) t)"

function str_split :: "string \<Rightarrow> string list" where
  "str_split [] = []"
| "str_split (c # cs) =
     (if isspace c then str_split cs
      else (c # takeWhile (\<lambda>x. \<not> isspace x) cs) # str_split (dropWhile (\<lambda>x. \<not> isspace x) cs))"
  by pat_completeness auto
termination
  by (relation "measure length") (auto simp: length_dropWhile_le less_Suc_eq_le)

definition str_strip :: "string \<Rightarrow> string" where
  "str_strip s = rev (dropWhile isspace (rev (dropWhile isspace s)))"

fun str_join :: "string \<Rightarrow> string list \<Rightarrow> string" where
  "str_join sep [] = []"
| "str_join sep [x] = x"
| "str_join sep (x # y # ys) = x @ sep @ str_join sep (y # ys)"

function str_nat :: "nat \<Rightarrow> string" where
  "str_nat n = (if n < 10 then [char_of (48 + n)] else str_nat (n div 10) @ [char_of (48 + n mod 10)])"
  by pat_completeness auto
termination
  by (relation "measure id") auto

definition str_int :: "int \<Rightarrow> string" where
  "str_int i = (if i < 0 then ''-'' @ str_nat (nat (- i)) else str_nat (nat i))"

section \<open>The preprocessor (preprocess.py)\<close>

record PreProcessor =
  screened_chars :: string

definition PreProcessor_init :: PreProcessor where
  "PreProcessor_init =
     \<lparr>screened_chars = ''!@#$%^&*()-_=+{}[]:;'' @ [CHR 0x27, CHR 0x22] @ ''/|''
        @ [CHR 0x5C] @ ''?><.,~'' @ [CHR 0x60]\<rparr>"

definition screen_step :: "char \<Rightarrow> string \<Rightarrow> string" where
  \<comment> \<open>the body of the loop over \<^verbatim>\<open>screened_chars\<close>\<close>
  "screen_step c t = (if c = CHR ''&'' then str_replace t c '' and '' else str_replace t c [])"

definition preprocess :: "PreProcessor \<Rightarrow> string \<Rightarrow> string" where
  "preprocess self s =
     (let t = str_lower s;
          t = fold screen_step (screened_chars self) t;
          tl = str_split t;
          tl = sort tl
      in str_join [] tl)"

definition screen :: "PreProcessor \<Rightarrow> string \<Rightarrow> string" where
  \<comment> \<open>steps 1 and 2 of \<^verbatim>\<open>preprocess\<close>, named for the proofs\<close>
  "screen self s = fold screen_step (screened_chars self) (str_lower s)"

section \<open>Values, tables, files and errors\<close>

datatype error =
    ValueError string
  | LookupError string
  | KeyError string
  | IndexError string
  | FileNotFoundError string
  | TypeError string

text \<open>
  A cell of a table is a string or some other object; of another object the program only
  uses \<^verbatim>\<open>str(x)\<close> and \<^verbatim>\<open>type(x)\<close>, which the value carries.
\<close>

datatype pyval = PyStr string | PyOther string string

fun py_str :: "pyval \<Rightarrow> string" where
  "py_str (PyStr s) = s"
| "py_str (PyOther r t) = r"

definition str_type :: string where
  \<comment> \<open>how \<^verbatim>\<open>type('')\<close> is printed\<close>
  "str_type = ''<class '' @ [CHR 0x27] @ ''str'' @ [CHR 0x27] @ ''>''"

text \<open>
  A DataFrame is the list of its columns in order, each a label and its values in row order
  (labels are taken to be distinct strings).
\<close>

type_synonym dataframe = "(string \<times> pyval list) list"

definition columns :: "dataframe \<Rightarrow> string list" where
  "columns df = map fst df"

definition df_contains :: "dataframe \<Rightarrow> string \<Rightarrow> bool" where
  "df_contains df col = (col \<in> set (columns df))"

definition df_getitem :: "dataframe \<Rightarrow> string \<Rightarrow> error + pyval list" where
  "df_getitem df col = (case map_of df col of None \<Rightarrow> Inl (KeyError col) | Some vs \<Rightarrow> Inr vs)"

definition df_setitem :: "dataframe \<Rightarrow> string \<Rightarrow> pyval list \<Rightarrow> dataframe" where
  "df_setitem df col vs =
     (if df_contains df col then map (\<lambda>kv. if fst kv = col then (col, vs) else kv) df
      else df @ [(col, vs)])"

datatype log_record = Warning string "string list"

text \<open>
  The world outside the objects: the files (a flat map from path to text, every directory
  taken to exist and to be writable) and the records logged at level WARNING, each a message
  template with its arguments. Records at the levels DEBUG and ERROR are not modelled (an
  ERROR record repeats the message of the exception raised after it).
\<close>

record world =
  files :: "string \<rightharpoonup> string"
  logged :: "log_record list"

definition warn :: "string \<Rightarrow> string list \<Rightarrow> world \<Rightarrow> world" where
  "warn msg args w = w\<lparr>logged := logged w @ [Warning msg args]\<rparr>"

definition write_file :: "string \<Rightarrow> string \<Rightarrow> world \<Rightarrow> world" where
  "write_file path text w = w\<lparr>files := (files w)(path \<mapsto> text)\<rparr>"

definition os_remove :: "string \<Rightarrow> world \<Rightarrow> (error + unit) \<times> world" where
  "os_remove path w =
     (case files w path of
        None \<Rightarrow> (Inl (FileNotFoundError path), w)
      | Some text \<Rightarrow> (Inr (), w\<lparr>files := (files w)(path := None)\<rparr>))"

fun universal_newlines :: "string \<Rightarrow> string" where
  "universal_newlines [] = []"
| "universal_newlines [c] = [if c = CR then LF else c]"
| "universal_newlines (c # d # ds) =
     (if c = CR \<and> d = LF then LF # universal_newlines ds
      else if c = CR then LF # universal_newlines (d # ds)
      else c # universal_newlines (d # ds))"

function readlines :: "string \<Rightarrow> string list" where
  "readlines [] = []"
| "readlines (c # cs) =
     (case dropWhile (\<lambda>x. x \<noteq> LF) (c # cs) of
        [] \<Rightarrow> [c # cs]
      | n # rest \<Rightarrow> (takeWhile (\<lambda>x. x \<noteq> LF) (c # cs) @ [LF]) # readlines rest)"
  by pat_completeness auto
termination
proof (relation "measure length")
  show "wf (measure length)" by simp
next
  fix c :: char and cs x21 x22
  assume "dropWhile (\<lambda>x. x \<noteq> LF) (c # cs) = x21 # x22"
  then have "length (x21 # x22) \<le> length (c # cs)"
    by (metis length_dropWhile_le)
  then show "(x22, c # cs) \<in> measure length" by simp
qed

definition file_lines :: "string \<Rightarrow> string list" where
  \<comment> \<open>iterating over a file opened in text mode\<close>
  "file_lines text = readlines (universal_newlines text)"

definition basename :: "string \<Rightarrow> string" where
  "basename p = rev (takeWhile (\<lambda>c. c \<noteq> CHR ''/'') (rev p))"

definition dirname :: "string \<Rightarrow> string" where
  "dirname p =
     (let head = rev (dropWhile (\<lambda>c. c \<noteq> CHR ''/'') (rev p))
      in if head \<noteq> [] \<and> filter (\<lambda>c. c \<noteq> CHR ''/'') head \<noteq> []
         then rev (dropWhile (\<lambda>c. c = CHR ''/'') (rev head)) else head)"

definition path_join :: "string \<Rightarrow> string \<Rightarrow> string" where
  "path_join a b =
     (if b \<noteq> [] \<and> hd b = CHR ''/'' then b
      else if a = [] \<or> last a = CHR ''/'' then a @ b
      else a @ ''/'' @ b)"

section \<open>The matcher (symspellpy, outside the repository)\<close>

text \<open>
  The program uses of a suggestion its term and its distance. The library is a parameter of
  the model: \<^verbatim>\<open>SymSpell(max_edit_distance, prefix_length)\<close> fails or gives an object whose
  \<^verbatim>\<open>create_dictionary\<close> turns the text of the corpus file into the function
  \<^verbatim>\<open>lookup(phrase, Verbosity.TOP, include_unknown=True)\<close>.
\<close>

record SuggestItem =
  s_term :: string
  s_distance :: int

type_synonym matcher = "string \<Rightarrow> SuggestItem list"

type_synonym symspell = "int \<Rightarrow> int \<Rightarrow> error + (string \<Rightarrow> matcher)"

definition unknown_item :: "string \<Rightarrow> int \<Rightarrow> SuggestItem" where
  \<comment> \<open>the item that \<^verbatim>\<open>lookup\<close> with \<^verbatim>\<open>include_unknown=True\<close> returns when it finds nothing\<close>
  "unknown_item phrase max_edit_distance = \<lparr>s_term = phrase, s_distance = max_edit_distance + 1\<rparr>"

definition exact_symspell :: symspell where
  \<comment> \<open>A small matcher to run the program on concrete inputs: it finds a phrase that is a line
      of the corpus at distance 0 and answers any other phrase with the unknown-term item, the
      phrase itself at distance \<^verbatim>\<open>max_edit_distance + 1\<close>.\<close>
  "exact_symspell max_edit_distance prefix_length =
     Inr (\<lambda>text phrase.
            if phrase \<noteq> [] \<and> phrase \<in> set (map str_strip (readlines text))
            then [\<lparr>s_term = phrase, s_distance = 0\<rparr>]
            else [unknown_item phrase max_edit_distance])"

section \<open>The class Fuzzy (fuzzypanda.py)\<close>

record Fuzzy =
  preprocess_flag :: bool
  unprocessed_corpus :: "string option"
  sym_spell :: "matcher option"
  index_dictionary :: "(string \<rightharpoonup> string) option"
  corpus :: "string option"
  max_edit_distance_dictionary :: int
  prefix_length :: int
  preprocesser :: "string \<Rightarrow> string"

definition check_corpus :: "Fuzzy \<Rightarrow> world \<Rightarrow> (error + unit) \<times> world" where
  "check_corpus self w =
     (case corpus self of
        None \<Rightarrow> (Inr (), warn ''Corpus file not defined'' [] w)
      | Some path \<Rightarrow>
          if files w path = None
          then (Inl (FileNotFoundError (''Corpus file '' @ path @ '' not found'')), w)
          else (Inr (), w))"

definition preprocess_corpus :: "Fuzzy \<Rightarrow> world \<Rightarrow> (error + Fuzzy) \<times> world" where
  "preprocess_corpus self w =
     (if preprocess_flag self then (Inr self, warn ''Corpus already preprocessed! Skipping'' [] w)
      else case corpus self of
        None \<Rightarrow> (Inl (FileNotFoundError ''self.corpus must be specified before pre-processing''), w)
      | Some path \<Rightarrow>
          (case check_corpus self w of
             (Inl e, w1) \<Rightarrow> (Inl e, w1)
           | (Inr u, w1) \<Rightarrow>
               let corpus_directory = dirname path;
                   corpus_name = basename path;
                   processed_corpus = path_join corpus_directory (''preprocessed_'' @ corpus_name)
               in (case files w1 path of
                     None \<Rightarrow> (Inl (FileNotFoundError path), w1)
                   | Some cf \<Rightarrow>
                       (let pcf = concat (map (\<lambda>line. preprocesser self line @ [LF]) (file_lines cf));
                            w2 = write_file processed_corpus pcf w1
                        in (Inr (self\<lparr>unprocessed_corpus := Some path,
                                      corpus := Some processed_corpus,
                                      preprocess_flag := True\<rparr>), w2)))))"

definition create_symspell_dict :: "symspell \<Rightarrow> Fuzzy \<Rightarrow> world \<Rightarrow> (error + Fuzzy) \<times> world" where
  "create_symspell_dict SymSpell self w =
     (case check_corpus self w of
        (Inl e, w1) \<Rightarrow> (Inl e, w1)
      | (Inr u, w1) \<Rightarrow>
          (case SymSpell (max_edit_distance_dictionary self) (prefix_length self) of
             Inl ex \<Rightarrow> (Inl ex, w1)
           | Inr create_dictionary \<Rightarrow>
               (case corpus self of
                  None \<Rightarrow> (Inl (TypeError ''stat: path should be string, bytes, os.PathLike or integer, not NoneType''), w1)
                | Some path \<Rightarrow>
                    (case files w1 path of
                       None \<Rightarrow> (Inr (self\<lparr>sym_spell := Some (create_dictionary [])\<rparr>), w1)
                     | Some text \<Rightarrow> (Inr (self\<lparr>sym_spell := Some (create_dictionary text)\<rparr>), w1)))))"

definition conflict_record :: "string \<Rightarrow> string \<Rightarrow> string \<Rightarrow> log_record" where
  "conflict_record original_string conflict_string processed_string =
     Warning ''index_dictionary conflict: %s conflicts with %s for key %s. Keeping index_dictionary[%s] = %s''
       [original_string, conflict_string, processed_string, processed_string, conflict_string]"

fun index_lines ::
  "(string \<Rightarrow> string) \<Rightarrow> string list \<Rightarrow> (string \<rightharpoonup> string) \<times> log_record list
     \<Rightarrow> (string \<rightharpoonup> string) \<times> log_record list" where
  \<comment> \<open>the loop of \<^verbatim>\<open>create_index\<close> over the lines of the unprocessed corpus\<close>
  "index_lines pp [] acc = acc"
| "index_lines pp (line # rest) (index, lg) =
     (let original_string = str_strip line;
          processed_string = pp original_string
      in (case index processed_string of
            Some conflict_string \<Rightarrow>
              if conflict_string \<noteq> original_string
              then index_lines pp rest
                     (index, lg @ [conflict_record original_string conflict_string processed_string])
              else index_lines pp rest (index(processed_string \<mapsto> original_string), lg)
          | None \<Rightarrow> index_lines pp rest (index(processed_string \<mapsto> original_string), lg)))"

definition first_seen :: "(string \<Rightarrow> string) \<Rightarrow> string list \<Rightarrow> string \<rightharpoonup> string" where
  \<comment> \<open>The reverse index in the spec's words: a canonical form maps to the first original,
      in input order, that has this canonical form.\<close>
  "first_seen pp originals k = find (\<lambda>original. pp original = k) originals"

definition notice_for :: "(string \<rightharpoonup> string) \<Rightarrow> (string \<Rightarrow> string) \<Rightarrow> string \<Rightarrow> log_record list" where
  "notice_for kept_of pp original =
     (case kept_of (pp original) of
        None \<Rightarrow> []
      | Some kept \<Rightarrow>
          if kept \<noteq> original then [conflict_record original kept (pp original)] else [])"

definition conflict_notices :: "(string \<Rightarrow> string) \<Rightarrow> string list \<Rightarrow> log_record list" where
  \<comment> \<open>The notices in the spec's words: one for each original, in input order, that differs
      from the first-seen original of its canonical form.\<close>
  "conflict_notices pp originals = concat (map (notice_for (first_seen pp originals) pp) originals)"

definition seen_from :: "(string \<rightharpoonup> string) \<Rightarrow> (string \<Rightarrow> string) \<Rightarrow> string list \<Rightarrow> string \<rightharpoonup> string" where
  \<comment> \<open>\<^const>\<open>first_seen\<close> over an index that already has entries, for the proofs\<close>
  "seen_from index pp originals k =
     (case index k of Some v \<Rightarrow> Some v | None \<Rightarrow> find (\<lambda>original. pp original = k) originals)"

definition create_index :: "Fuzzy \<Rightarrow> world \<Rightarrow> (error + Fuzzy) \<times> world" where
  "create_index self w =
     (case check_corpus self w of
        (Inl e, w1) \<Rightarrow> (Inl e, w1)
      | (Inr u, w1) \<Rightarrow>
          let w2 = (if index_dictionary self \<noteq> None
                    then warn ''index_dictionary already created. Overwritting.'' [] w1 else w1)
          in if \<not> preprocess_flag self
             then (Inl (FileNotFoundError ''Corpus not processed. Cannot create index dictionary''), w2)
             else (case unprocessed_corpus self of
                     None \<Rightarrow> (Inl (TypeError ''stat: path should be string, bytes, os.PathLike or integer, not NoneType''), w2)
                   | Some path \<Rightarrow>
                       (case files w2 path of
                          None \<Rightarrow> (Inl (FileNotFoundError (''Unprocessed Corpus file'' @ path @ '' not found'')), w2)
                        | Some ucf \<Rightarrow>
                            (let r = index_lines (preprocesser self) (file_lines ucf) (Map.empty, [])
                             in (Inr (self\<lparr>index_dictionary := Some (fst r)\<rparr>),
                                 w2\<lparr>logged := logged w2 @ snd r\<rparr>)))))"

definition Fuzzy_init ::
  "symspell \<Rightarrow> string option \<Rightarrow> (string \<Rightarrow> string) option \<Rightarrow> int \<Rightarrow> int \<Rightarrow> world
     \<Rightarrow> (error + Fuzzy) \<times> world" where
  "Fuzzy_init SymSpell input_corpus preprocesser_arg max_edit_distance_dictionary_arg prefix_length_arg w =
     (let self = \<lparr>preprocess_flag = False,
                  unprocessed_corpus = None,
                  sym_spell = None,
                  index_dictionary = None,
                  corpus = input_corpus,
                  max_edit_distance_dictionary = max_edit_distance_dictionary_arg,
                  prefix_length = prefix_length_arg,
                  preprocesser = (case preprocesser_arg of
                                    None \<Rightarrow> preprocess PreProcessor_init
                                  | Some p \<Rightarrow> p)\<rparr>
      in (case check_corpus self w of
            (Inl e, w1) \<Rightarrow> (Inl e, w1)
          | (Inr u, w1) \<Rightarrow>
              \<comment> \<open>\<^verbatim>\<open>if preprocess:\<close> tests the imported module, which is always true\<close>
              (case preprocess_corpus self w1 of
                 (Inl e, w2) \<Rightarrow> (Inl e, w2)
               | (Inr self2, w2) \<Rightarrow>
                   if preprocess_flag self2
                   then (case create_symspell_dict SymSpell self2 w2 of
                           (Inl e, w3) \<Rightarrow> (Inl e, w3)
                         | (Inr self3, w3) \<Rightarrow> create_index self3 w3)
                   else (Inr self2, w2))))"

definition query :: "Fuzzy \<Rightarrow> pyval \<Rightarrow> error + string \<times> bool" where
  "query self q =
     (case q of
        PyOther r t \<Rightarrow> Inl (ValueError (r @ '' is type '' @ t @ '' not string''))
      | PyStr qstring \<Rightarrow>
          (case index_dictionary self of
             None \<Rightarrow> Inl (ValueError ''index_dictionary not created'')
           | Some index \<Rightarrow>
               (case sym_spell self of
                  None \<Rightarrow> Inl (ValueError ''sym_spell SymSpell object not created'')
                | Some lookup \<Rightarrow>
                    let processed_string = preprocesser self qstring
                    in (case lookup processed_string of
                          [] \<Rightarrow> Inl (IndexError ''list index out of range'')
                        | item # others \<Rightarrow>
                            (let found_term = s_term item;
                                 found_edit_distance = s_distance item
                             in if found_edit_distance > max_edit_distance_dictionary self
                                then Inr (qstring, False)
                                else (case index found_term of
                                        None \<Rightarrow> Inl (KeyError found_term)
                                      | Some backprocessed_string \<Rightarrow>
                                          Inr (backprocessed_string, True)))))))"

definition apply_query :: "Fuzzy \<Rightarrow> pyval option \<Rightarrow> pyval \<Rightarrow> error + pyval" where
  \<comment> \<open>the function local to \<^verbatim>\<open>get_fuzzy_column\<close>\<close>
  "apply_query self null_return v =
     (case query self v of
        Inl e \<Rightarrow> Inl e
      | Inr (out, found) \<Rightarrow>
          if found then Inr (PyStr out)
          else (case null_return of None \<Rightarrow> Inr (PyStr out) | Some nr \<Rightarrow> Inr nr))"

fun series_apply :: "('a \<Rightarrow> error + 'b) \<Rightarrow> 'a list \<Rightarrow> error + 'b list" where
  \<comment> \<open>\<^verbatim>\<open>Series.apply\<close>: the values in row order, stopping at the first exception\<close>
  "series_apply f [] = Inr []"
| "series_apply f (v # vs) =
     (case f v of
        Inl e \<Rightarrow> Inl e
      | Inr y \<Rightarrow> (case series_apply f vs of Inl e \<Rightarrow> Inl e | Inr ys \<Rightarrow> Inr (y # ys)))"

definition get_fuzzy_column ::
  "Fuzzy \<Rightarrow> dataframe \<Rightarrow> string \<Rightarrow> pyval option \<Rightarrow> error + pyval list" where
  "get_fuzzy_column self dataframe col_name null_return =
     (if \<not> df_contains dataframe col_name
      then Inl (LookupError (str_join '' '' ((col_name @ '' not in dataframe columns:'') # columns dataframe)))
      else case null_return of
             Some (PyOther r t) \<Rightarrow>
               Inl (ValueError (''null_return is type '' @ t @ '' not '' @ str_type))
           | _ \<Rightarrow>
               (case df_getitem dataframe col_name of
                  Inl e \<Rightarrow> Inl e
                | Inr vs \<Rightarrow> series_apply (apply_query self null_return) vs))"

section \<open>The entry point get_fuzzy_columns\<close>

datatype cols = ColList "string list" | NotList string

definition corpus_text :: "pyval list \<Rightarrow> string" where
  \<comment> \<open>what the loop over the rows of the right column writes into the dictionary file\<close>
  "corpus_text rows = concat (map (\<lambda>row. py_str row @ [LF]) rows)"

fun fuzzy_loop ::
  "symspell \<Rightarrow> dataframe \<Rightarrow> dataframe \<Rightarrow> string list \<Rightarrow> pyval option \<Rightarrow> (string \<Rightarrow> string) option
     \<Rightarrow> int \<Rightarrow> nat \<Rightarrow> string list \<Rightarrow> pyval list list \<Rightarrow> world
     \<Rightarrow> (error + pyval list list) \<times> world" where
  \<comment> \<open>the first loop, from pair \<^verbatim>\<open>i\<close> on, with the \<^verbatim>\<open>fuzzy_cols\<close> collected so far\<close>
  "fuzzy_loop SymSpell left_dataframe right_dataframe right_cols null_return preprocesser_arg
     max_edit_distance i [] fuzzy_cols w = (Inr fuzzy_cols, w)"
| "fuzzy_loop SymSpell left_dataframe right_dataframe right_cols null_return preprocesser_arg
     max_edit_distance i (left_col # rest) fuzzy_cols w =
     (if length right_cols \<le> i then (Inl (IndexError ''list index out of range''), w)
      else
        let right_col = right_cols ! i;
            dict_name = right_col @ ''_dict.txt'';
            w1 = write_file dict_name [] w
        in (case df_getitem right_dataframe right_col of
             Inl e \<Rightarrow> (Inl e, w1)
           | Inr rows \<Rightarrow>
               (let w2 = write_file dict_name (corpus_text rows) w1
                in case Fuzzy_init SymSpell (Some dict_name) preprocesser_arg max_edit_distance 7 w2 of
                    (Inl e, w3) \<Rightarrow> (Inl e, w3)
                  | (Inr fuzz_obj, w3) \<Rightarrow>
                      (case get_fuzzy_column fuzz_obj left_dataframe left_col null_return of
                         Inl e \<Rightarrow> (Inl e, w3)
                       | Inr fuzzy_col \<Rightarrow>
                           (case os_remove dict_name w3 of
                              (Inl e, w4) \<Rightarrow> (Inl e, w4)
                            | (Inr u, w4) \<Rightarrow>
                                (case os_remove (''preprocessed_'' @ dict_name) w4 of
                                   (Inl e, w5) \<Rightarrow> (Inl e, w5)
                                 | (Inr u', w5) \<Rightarrow>
                                     fuzzy_loop SymSpell left_dataframe right_dataframe right_cols
                                       null_return preprocesser_arg max_edit_distance (Suc i) rest
                                       (fuzzy_cols @ [fuzzy_col]) w5))))))"

fun add_columns :: "dataframe \<Rightarrow> string list \<Rightarrow> pyval list list \<Rightarrow> dataframe" where
  \<comment> \<open>the second loop: \<^verbatim>\<open>left_dataframe['fuzzy_' + left_cols[i]] = fuzzy_col\<close>\<close>
  "add_columns df (left_col # left_cols) (fuzzy_col # fuzzy_cols) =
     add_columns (df_setitem df (''fuzzy_'' @ left_col) fuzzy_col) left_cols fuzzy_cols"
| "add_columns df left_cols fuzzy_cols = df"

definition get_fuzzy_columns ::
  "symspell \<Rightarrow> dataframe \<Rightarrow> dataframe \<Rightarrow> cols \<Rightarrow> cols option \<Rightarrow> pyval option
     \<Rightarrow> (string \<Rightarrow> string) option \<Rightarrow> int \<Rightarrow> world \<Rightarrow> error option \<times> dataframe \<times> world" where
  \<comment> \<open>the result is the exception raised, if any, the left table and the world afterwards\<close>
  "get_fuzzy_columns SymSpell left_dataframe right_dataframe left_cols_arg right_cols_arg null_return
     preprocesser_arg max_edit_distance w =
     (case left_cols_arg of
        NotList ty \<Rightarrow>
          (Some (ValueError (''left_cols must be of type list. Given '' @ ty)), left_dataframe, w)
      | ColList left_cols \<Rightarrow>
          (case find (\<lambda>col. \<not> df_contains left_dataframe col) left_cols of
             Some col \<Rightarrow>
               (Some (LookupError (col @ '' in left_cols not in left_dataframe columns'')),
                left_dataframe, w)
           | None \<Rightarrow>
               (case (case right_cols_arg of
                        None \<Rightarrow> Inr left_cols
                      | Some (NotList ty) \<Rightarrow>
                          Inl (ValueError (''right_cols must be of type list. Given '' @ ty))
                      | Some (ColList right_cols) \<Rightarrow>
                          (case find (\<lambda>col. \<not> df_contains right_dataframe col) right_cols of
                             Some col \<Rightarrow>
                               Inl (LookupError (col @ '' in right_cols not in right_dataframe columns''))
                           | None \<Rightarrow> Inr right_cols)) of
                  Inl e \<Rightarrow> (Some e, left_dataframe, w)
                | Inr right_cols \<Rightarrow>
                    (case null_return of
                       Some (PyOther r t) \<Rightarrow>
                         (Some (ValueError (''null_return is type '' @ t @ '' not '' @ str_type)),
                          left_dataframe, w)
                     | _ \<Rightarrow>
                         if max_edit_distance < 1
                         then (Some (ValueError (''max_edit_distance must be > 1, given ''
                                                  @ str_int max_edit_distance)), left_dataframe, w)
                         else (case fuzzy_loop SymSpell left_dataframe right_dataframe right_cols
                                      null_return preprocesser_arg max_edit_distance 0 left_cols [] w of
                                 (Inl e, w') \<Rightarrow> (Some e, left_dataframe, w')
                               | (Inr fuzzy_cols, w') \<Rightarrow>
                                   (None, add_columns left_dataframe left_cols fuzzy_cols, w'))))))"

section \<open>Concrete inputs\<close>

text \<open>The objects and tables on which the theorems below are run.\<close>

definition demo_fuzzy :: "int \<Rightarrow> Fuzzy" where
  \<comment> \<open>an object whose matcher answers every phrase with ``sitting'' at the given distance\<close>
  "demo_fuzzy d =
     \<lparr>preprocess_flag = True,
      unprocessed_corpus = Some ''RsCol_dict.txt'',
      sym_spell = Some (\<lambda>phrase. [\<lparr>s_term = ''sitting'', s_distance = d\<rparr>]),
      index_dictionary = Some [''sitting'' \<mapsto> ''Sitting'', ''kitten'' \<mapsto> ''kitten''],
      corpus = Some ''preprocessed_RsCol_dict.txt'',
      max_edit_distance_dictionary = 2,
      prefix_length = 7,
      preprocesser = preprocess PreProcessor_init\<rparr>"

definition demo_left :: dataframe where
  "demo_left = [(''ID'', [PyStr ''123314'', PyStr ''987'']),
                (''sCol'', [PyStr ''kitten'', PyStr ''Not in there!''])]"

definition demo_right :: dataframe where
  "demo_right = [(''ID'', [PyStr ''12783314'', PyStr ''12352213'']),
                 (''RsCol'', [PyStr ''kitten'', PyStr ''  Sitting ''])]"

definition empty_world :: world where
  "empty_world = \<lparr>files = Map.empty, logged = []\<rparr>"

definition staged_world :: world where
  "staged_world = write_file ''RsCol_dict.txt'' (corpus_text [PyStr ''kitten'', PyStr ''  Sitting '']) empty_world"

definition demo_mixed :: dataframe where
  "demo_mixed = [(''sCol'', [PyStr ''kitten'', PyStr ''SITTING!'']),
                 (''nCol'', [PyOther ''5'' (''<class '' @ [CHR 0x27] @ ''int'' @ [CHR 0x27] @ ''>'')])]"

section \<open>The canonical form\<close>

lemma str_join_Nil: "str_join [] xs = concat xs"
  by (induction "[] :: string" xs rule: str_join.induct) simp_all

lemma str_split_tokens:
  "w \<in> set (str_split s) \<Longrightarrow> w \<noteq> [] \<and> (\<forall>c\<in>set w. \<not> isspace c)"
proof (induction s rule: str_split.induct)
  case 1
  then show ?case by simp
next
  case (2 c cs)
  show ?case
  proof (cases "isspace c")
    case True
    with 2 show ?thesis by simp
  next
    case False
    with "2.prems" have "w = c # takeWhile (\<lambda>x. \<not> isspace x) cs
        \<or> w \<in> set (str_split (dropWhile (\<lambda>x. \<not> isspace x) cs))"
      by simp
    then show ?thesis
    proof
      assume "w = c # takeWhile (\<lambda>x. \<not> isspace x) cs"
      with False show ?thesis by (auto dest: set_takeWhileD)
    next
      assume "w \<in> set (str_split (dropWhile (\<lambda>x. \<not> isspace x) cs))"
      with False "2.IH"(2) show ?thesis by blast
    qed
  qed
qed

lemma set_concat_str_split:
  "set (concat (str_split s)) = {c \<in> set s. \<not> isspace c}"
proof (induction s rule: str_split.induct)
  case 1
  then show ?case by simp
next
  case (2 c cs)
  have tw: "set cs = set (takeWhile (\<lambda>x. \<not> isspace x) cs) \<union> set (dropWhile (\<lambda>x. \<not> isspace x) cs)"
    by (metis set_append takeWhile_dropWhile_id)
  show ?case
  proof (cases "isspace c")
    case True
    with 2 show ?thesis by auto
  next
    case False
    have a: "set (takeWhile (\<lambda>x. \<not> isspace x) cs) \<subseteq> {x \<in> set cs. \<not> isspace x}"
      by (auto dest: set_takeWhileD)
    have "set (concat (str_split (c # cs))) = insert c (set (takeWhile (\<lambda>x. \<not> isspace x) cs)) \<union> {x \<in> set (dropWhile (\<lambda>x. \<not> isspace x) cs). \<not> isspace x}"
      using False 2 by simp
    also have "\<dots> = {x \<in> set (c # cs). \<not> isspace x}"
      using False a tw by (simp only: set_simps) blast
    finally show ?thesis .
  qed
qed

text \<open>
  Claim C6. Whatever the screened characters are and whatever the input string is, no
  character of \<^verbatim>\<open>preprocess(s)\<close> is a whitespace character.
\<close>

theorem preprocess_no_space: "list_all (\<lambda>c. \<not> isspace c) (preprocess self s)"
  by (simp add: preprocess_def str_join_Nil Let_def list_all_iff set_concat_str_split[unfolded set_concat])

theorem preprocess_no_space_witness:
  "list_all (\<lambda>c. \<not> isspace c) (preprocess PreProcessor_init (''  Over the '' @ [CHR 0x09, LF] @ '' Rainbow & C# ''))
   \<and> preprocess PreProcessor_init (''  Over the '' @ [CHR 0x09, LF] @ '' Rainbow & C# '') = ''andcoverrainbowthe''"
proof -
  have "preprocess PreProcessor_init (''  Over the '' @ [CHR 0x09, LF] @ '' Rainbow & C# '') = ''andcoverrainbowthe''"
    by code_simp
  with preprocess_no_space[of PreProcessor_init "''  Over the '' @ [CHR 0x09, LF] @ '' Rainbow & C# ''"]
  show ?thesis by simp
qed


lemma lower_char_idem: "lower_char (lower_char c) = lower_char c"
proof -
  define n where "n = (of_char c :: nat)"
  have lt: "n < 256" unfolding n_def by simp
  show ?thesis
  proof (cases "(65 \<le> n \<and> n \<le> 90) \<or> (192 \<le> n \<and> n \<le> 214) \<or> (216 \<le> n \<and> n \<le> 222)")
    case True
    then have l: "lower_char c = char_of (n + 32)"
      by (simp add: lower_char_def n_def Let_def)
    from True have "n + 32 < 256" by arith
    then have m: "(of_char (char_of (n + 32) :: char) :: nat) = n + 32"
      by simp
    from True have "\<not> ((65 \<le> n + 32 \<and> n + 32 \<le> 90) \<or> (192 \<le> n + 32 \<and> n + 32 \<le> 214) \<or> (216 \<le> n + 32 \<and> n + 32 \<le> 222))"
      by arith
    then have "lower_char (char_of (n + 32)) = char_of (n + 32)"
      unfolding lower_char_def Let_def m by (simp only: if_False)
    with l show ?thesis by simp
  next
    case False
    then have "lower_char c = c"
      by (auto simp: lower_char_def n_def Let_def)
    then show ?thesis by simp
  qed
qed

lemma isspace_lower_char: "isspace c \<Longrightarrow> lower_char c = c"
  by (auto simp: isspace_def lower_char_def Let_def)

lemma set_str_replace:
  "set (str_replace t c new) = (set t - {c}) \<union> (if c \<in> set t then set new else {})"
  by (induction t) (auto simp: str_replace_def)

lemma str_replace_absent: "c \<notin> set t \<Longrightarrow> str_replace t c new = t"
  by (induction t) (auto simp: str_replace_def)

lemma str_replace_append:
  "str_replace (a @ b) c new = str_replace a c new @ str_replace b c new"
  by (simp add: str_replace_def)

lemma screen_step_append: "screen_step c (a @ b) = screen_step c a @ screen_step c b"
  by (simp add: screen_step_def str_replace_append)

lemma screen_step_absent: "c \<notin> set t \<Longrightarrow> screen_step c t = t"
  by (auto simp: screen_step_def str_replace_absent)

lemma set_screen_step: "set (screen_step c t) \<subseteq> (set t - {c}) \<union> set '' and ''"
  by (auto simp: screen_step_def set_str_replace split: if_splits)

lemma fold_screen_step_append:
  "fold screen_step cs (a @ b) = fold screen_step cs a @ fold screen_step cs b"
  by (induction cs arbitrary: a b) (simp_all add: screen_step_append)

lemma fold_screen_step_absent:
  "set t \<inter> set cs = {} \<Longrightarrow> fold screen_step cs t = t"
  by (induction cs arbitrary: t) (auto simp: screen_step_absent)

lemma set_fold_screen_step:
  "set '' and '' \<inter> set cs = {} \<Longrightarrow>
   set (fold screen_step cs t) \<subseteq> (set t \<union> set '' and '') - set cs"
proof (induction cs arbitrary: t)
  case Nil
  then show ?case by auto
next
  case (Cons c cs)
  from Cons.prems have d: "set '' and '' \<inter> set cs = {}" and cn: "c \<notin> set '' and ''"
    by auto
  have "set (fold screen_step (c # cs) t) \<subseteq> (set (screen_step c t) \<union> set '' and '') - set cs"
    using Cons.IH[OF d, of "screen_step c t"] by simp
  also have "\<dots> \<subseteq> (((set t - {c}) \<union> set '' and '') \<union> set '' and '') - set cs"
    using set_screen_step[of c t] by blast
  also have "\<dots> \<subseteq> (set t \<union> set '' and '') - set (c # cs)"
    using cn by (simp only: set_simps) blast
  finally show ?case .
qed

lemma str_split_single:
  "t \<noteq> [] \<Longrightarrow> \<forall>c\<in>set t. \<not> isspace c \<Longrightarrow> str_split t = [t]"
  by (cases t) (simp_all add: takeWhile_eq_all_conv[THEN iffD2] dropWhile_eq_Nil_conv[THEN iffD2])

lemma and_not_screened: "set '' and '' \<inter> set (screened_chars PreProcessor_init) = {}"
  by (simp add: PreProcessor_init_def)

lemma preprocess_chars:
  assumes "c \<in> set (preprocess PreProcessor_init s)"
  shows "\<not> isspace c \<and> c \<notin> set (screened_chars PreProcessor_init) \<and> lower_char c = c"
proof -
  let ?u = "fold screen_step (screened_chars PreProcessor_init) (str_lower s)"
  have "set (preprocess PreProcessor_init s) = {c \<in> set ?u. \<not> isspace c}"
    by (simp add: preprocess_def str_join_Nil Let_def set_concat_str_split[unfolded set_concat])
  with assms have cu: "c \<in> set ?u" and ns: "\<not> isspace c" by auto
  from cu set_fold_screen_step[OF and_not_screened, of "str_lower s"]
  have m: "c \<in> set (str_lower s) \<union> set '' and ''" and sc: "c \<notin> set (screened_chars PreProcessor_init)"
    by auto
  from m have "lower_char c = c"
  proof
    assume "c \<in> set (str_lower s)"
    then show ?thesis by (auto simp: str_lower_def lower_char_idem)
  next
    assume "c \<in> set '' and ''"
    then show ?thesis by (auto simp: lower_char_def)
  qed
  with ns sc show ?thesis by simp
qed

text \<open>
  Claim C4. With the default screened characters the preprocessor is idempotent: the
  canonical form of a canonical form is that canonical form.
\<close>

theorem preprocess_idempotent:
  "preprocess PreProcessor_init (preprocess PreProcessor_init s) = preprocess PreProcessor_init s"
proof -
  let ?t = "preprocess PreProcessor_init s"
  have lo: "str_lower ?t = ?t"
    unfolding str_lower_def by (rule map_idI) (simp add: preprocess_chars)
  have sc: "fold screen_step (screened_chars PreProcessor_init) ?t = ?t"
    by (rule fold_screen_step_absent) (use preprocess_chars in blast)
  have sp: "concat (sort (str_split ?t)) = ?t"
  proof (cases "?t = []")
    case True
    then show ?thesis by simp
  next
    case False
    then have "str_split ?t = [?t]"
      by (rule str_split_single) (simp add: preprocess_chars)
    then show ?thesis by simp
  qed
  have "preprocess PreProcessor_init ?t
      = concat (sort (str_split (fold screen_step (screened_chars PreProcessor_init) (str_lower ?t))))"
    by (simp add: preprocess_def str_join_Nil Let_def)
  also have "\<dots> = ?t" by (simp only: lo sc sp)
  finally show ?thesis .
qed


theorem preprocess_idempotent_witness:
  "preprocess PreProcessor_init (preprocess PreProcessor_init ''The Best & Worst of Times!'')
     = preprocess PreProcessor_init ''The Best & Worst of Times!''
   \<and> preprocess PreProcessor_init ''The Best & Worst of Times!'' = ''andbestofthetimesworst''"
proof -
  have "preprocess PreProcessor_init ''The Best & Worst of Times!'' = ''andbestofthetimesworst''"
    by code_simp
  with preprocess_idempotent[of "''The Best & Worst of Times!''"] show ?thesis by simp
qed

lemma screen_append: "screen self (a @ b) = screen self a @ screen self b"
  by (simp add: screen_def str_lower_def fold_screen_step_append)

lemma screen_Nil: "screen self [] = []"
  using screen_append[of self "[]" "[]"] by simp

lemma screened_not_space: "c \<in> set (screened_chars PreProcessor_init) \<Longrightarrow> \<not> isspace c"
  by (auto simp: PreProcessor_init_def isspace_def)

lemma screen_space: "isspace c \<Longrightarrow> screen PreProcessor_init [c] = [c]"
proof -
  assume sp: "isspace c"
  have "set [c] \<inter> set (screened_chars PreProcessor_init) = {}"
    using screened_not_space[of c] sp by auto
  then have "fold screen_step (screened_chars PreProcessor_init) [c] = [c]"
    by (rule fold_screen_step_absent)
  then show ?thesis
    by (simp add: screen_def str_lower_def isspace_lower_char[OF sp])
qed

lemma str_split_append:
  "b = [] \<or> isspace (hd b) \<Longrightarrow> str_split (a @ b) = str_split a @ str_split b"
proof (induction a rule: str_split.induct)
  case 1
  then show ?case by simp
next
  case (2 c cs)
  show ?case
  proof (cases "isspace c")
    case True
    with 2 show ?thesis by simp
  next
    case False
    let ?P = "\<lambda>x. \<not> isspace x"
    from "2.prems" have tb: "takeWhile ?P b = []"
      by (cases b) auto
    have t: "takeWhile ?P (cs @ b) = takeWhile ?P cs"
      by (simp add: takeWhile_append tb takeWhile_eq_all_conv[THEN iffD2])
    from "2.prems" have db: "dropWhile ?P b = b"
      by (cases b) auto
    have d: "dropWhile ?P (cs @ b) = dropWhile ?P cs @ b"
      by (simp add: dropWhile_append db)
    have "str_split ((c # cs) @ b) = (c # takeWhile ?P cs) # str_split (dropWhile ?P cs @ b)"
      using False by (simp add: t d)
    also have "\<dots> = (c # takeWhile ?P cs) # (str_split (dropWhile ?P cs) @ str_split b)"
      using "2.IH"(2)[OF False "2.prems"] by simp
    also have "\<dots> = str_split (c # cs) @ str_split b"
      using False by simp
    finally show ?thesis .
  qed
qed

lemma screen_starts_space:
  "r = [] \<or> isspace (hd r) \<Longrightarrow>
   screen PreProcessor_init r = [] \<or> isspace (hd (screen PreProcessor_init r))"
proof (cases r)
  case Nil
  then show ?thesis by (simp add: screen_Nil)
next
  case (Cons x xs)
  assume "r = [] \<or> isspace (hd r)"
  with Cons have sp: "isspace x" by simp
  have "screen PreProcessor_init r = [x] @ screen PreProcessor_init xs"
    using screen_append[of PreProcessor_init "[x]" xs] screen_space[OF sp] Cons by simp
  with sp show ?thesis by simp
qed

lemma str_split_screen:
  "str_split (screen PreProcessor_init s)
     = concat (map (\<lambda>w. str_split (screen PreProcessor_init w)) (str_split s))"
proof (induction s rule: str_split.induct)
  case 1
  then show ?case by (simp add: screen_Nil)
next
  case (2 c cs)
  show ?case
  proof (cases "isspace c")
    case True
    have "screen PreProcessor_init (c # cs) = [c] @ screen PreProcessor_init cs"
      using screen_append[of PreProcessor_init "[c]" cs] screen_space[OF True] by simp
    then have "str_split (screen PreProcessor_init (c # cs)) = str_split (screen PreProcessor_init cs)"
      using True by simp
    with True "2.IH"(1) show ?thesis by simp
  next
    case False
    let ?P = "\<lambda>x. \<not> isspace x"
    let ?w = "c # takeWhile ?P cs"
    let ?r = "dropWhile ?P cs"
    have dec: "c # cs = ?w @ ?r" by simp
    have r0: "?r = [] \<or> isspace (hd ?r)"
      by (metis hd_dropWhile)
    have "str_split (screen PreProcessor_init (c # cs))
        = str_split (screen PreProcessor_init ?w @ screen PreProcessor_init ?r)"
      by (simp only: dec screen_append)
    also have "\<dots> = str_split (screen PreProcessor_init ?w) @ str_split (screen PreProcessor_init ?r)"
      by (rule str_split_append) (rule screen_starts_space[OF r0])
    also have "\<dots> = str_split (screen PreProcessor_init ?w)
        @ concat (map (\<lambda>w. str_split (screen PreProcessor_init w)) (str_split ?r))"
      using "2.IH"(2)[OF False] by simp
    also have "\<dots> = concat (map (\<lambda>w. str_split (screen PreProcessor_init w)) (str_split (c # cs)))"
      using False by simp
    finally show ?thesis .
  qed
qed

lemma mset_concat_map:
  "mset xs = mset ys \<Longrightarrow> mset (concat (map f xs)) = mset (concat (map f ys))"
proof -
  assume e: "mset xs = mset ys"
  have "\<And>zs. mset (concat (map f zs)) = (\<Sum>z\<in>#mset zs. mset (f z))"
    by (induct_tac zs) simp_all
  with e show ?thesis by simp
qed

lemma preprocess_screen:
  "preprocess self s = concat (sort (str_split (screen self s)))"
  by (simp add: preprocess_def screen_def str_join_Nil Let_def)

text \<open>
  Claim C7. Two strings with the same multiset of whitespace-separated words, in whatever
  order and with whatever spacing, have the same canonical form under the default preprocessor.
\<close>

theorem preprocess_word_order:
  assumes "mset (str_split s1) = mset (str_split s2)"
  shows "preprocess PreProcessor_init s1 = preprocess PreProcessor_init s2"
proof -
  have "mset (str_split (screen PreProcessor_init s1)) = mset (str_split (screen PreProcessor_init s2))"
    unfolding str_split_screen[of s1] str_split_screen[of s2]
    by (rule mset_concat_map) (rule assms)
  then have "sort (str_split (screen PreProcessor_init s1)) = sort (str_split (screen PreProcessor_init s2))"
    by (metis properties_for_sort mset_sort sorted_sort)
  then show ?thesis by (simp add: preprocess_screen)
qed

theorem preprocess_word_order_witness:
  "mset (str_split ''the best of times'') = mset (str_split ''of times the best'')
   \<and> preprocess PreProcessor_init ''the best of times'' = preprocess PreProcessor_init ''of times the best''
   \<and> preprocess PreProcessor_init ''the best of times'' = ''bestofthetimes''"
proof -
  have sp1: "str_split ''the best of times'' = [''the'', ''best'', ''of'', ''times'']"
    by code_simp
  have sp2: "str_split ''of times the best'' = [''of'', ''times'', ''the'', ''best'']"
    by code_simp
  have h: "mset (str_split ''the best of times'') = mset (str_split ''of times the best'')"
    unfolding sp1 sp2 by (simp add: add.commute add.left_commute)
  have v: "preprocess PreProcessor_init ''the best of times'' = ''bestofthetimes''"
    by code_simp
  from h preprocess_word_order[OF h] v show ?thesis by simp
qed


section \<open>Queries\<close>

lemma series_apply_rows:
  "series_apply f vs = Inr out \<Longrightarrow>
   length out = length vs \<and> (\<forall>i<length vs. f (vs ! i) = Inr (out ! i))"
proof (induction vs arbitrary: out)
  case Nil
  then show ?case by simp
next
  case (Cons v vs)
  from Cons.prems obtain y ys where y: "f v = Inr y" and ys: "series_apply f vs = Inr ys"
    and out: "out = y # ys"
    by (auto split: sum.splits)
  from Cons.IH[OF ys] have l: "length ys = length vs"
    and r: "\<And>i. i < length vs \<Longrightarrow> f (vs ! i) = Inr (ys ! i)"
    by simp_all
  show ?case
  proof (intro conjI allI impI)
    show "length out = length (v # vs)" using out l by simp
  next
    fix i assume "i < length (v # vs)"
    then show "f ((v # vs) ! i) = Inr (out ! i)"
      using y r out by (cases i) simp_all
  qed
qed

text \<open>
  Claim C1. For an object whose index and matcher are built: a first suggestion at a distance
  equal to \<^verbatim>\<open>max_edit_distance_dictionary\<close> whose term the index resolves is accepted, and
  \<^verbatim>\<open>query\<close> returns the resolved original with the flag True; a first suggestion at a
  larger distance is rejected, and \<^verbatim>\<open>query\<close> returns the query string with the flag False.
  When the matcher finds nothing it returns the unknown-term item, whose distance is
  \<^verbatim>\<open>max_edit_distance + 1\<close>, and the result is again the query string with the flag False.
\<close>

theorem query_threshold_inclusive:
  assumes "index_dictionary self = Some index" and "sym_spell self = Some lookup"
  shows "(lookup (preprocesser self qstring) = item # others
            \<and> s_distance item = max_edit_distance_dictionary self
            \<and> index (s_term item) = Some original
          \<longrightarrow> query self (PyStr qstring) = Inr (original, True))
       \<and> (lookup (preprocesser self qstring) = item # others
            \<and> s_distance item > max_edit_distance_dictionary self
          \<longrightarrow> query self (PyStr qstring) = Inr (qstring, False))
       \<and> (lookup (preprocesser self qstring)
              = [unknown_item (preprocesser self qstring) (max_edit_distance_dictionary self)]
          \<longrightarrow> query self (PyStr qstring) = Inr (qstring, False))"
  using assms by (simp add: query_def Let_def unknown_item_def)

theorem query_threshold_inclusive_witness:
  "query (demo_fuzzy 2) (PyStr ''siting'') = Inr (''Sitting'', True)
   \<and> query (demo_fuzzy 3) (PyStr ''siting'') = Inr (''siting'', False)"
proof -
  have a: "query (demo_fuzzy 2) (PyStr ''siting'') = Inr (''Sitting'', True)"
    using query_threshold_inclusive[of "demo_fuzzy 2"
        "[''sitting'' \<mapsto> ''Sitting'', ''kitten'' \<mapsto> ''kitten'']"
        "\<lambda>phrase. [\<lparr>s_term = ''sitting'', s_distance = 2\<rparr>]"
        "''siting''" "\<lparr>s_term = ''sitting'', s_distance = 2\<rparr>" "[]" "''Sitting''"]
    by (simp add: demo_fuzzy_def)
  have b: "query (demo_fuzzy 3) (PyStr ''siting'') = Inr (''siting'', False)"
    using query_threshold_inclusive[of "demo_fuzzy 3"
        "[''sitting'' \<mapsto> ''Sitting'', ''kitten'' \<mapsto> ''kitten'']"
        "\<lambda>phrase. [\<lparr>s_term = ''sitting'', s_distance = 3\<rparr>]"
        "''siting''" "\<lparr>s_term = ''sitting'', s_distance = 3\<rparr>" "[]" "''Sitting''"]
    by (simp add: demo_fuzzy_def)
  from a b show ?thesis by simp
qed

text \<open>
  Claim C2. When the first suggestion for a string of the left column lies beyond the
  threshold, \<^verbatim>\<open>query\<close> returns that string itself, as it was given and not its canonical
  form, with the flag False; the function applied to each row then yields \<^verbatim>\<open>null_return\<close>
  when one is configured and the string itself otherwise, and that is the value at the row's
  position in the column that \<^verbatim>\<open>get_fuzzy_column\<close> returns.
\<close>

theorem miss_returns_original:
  assumes "index_dictionary self = Some index" and "sym_spell self = Some lookup"
    and "lookup (preprocesser self qstring) = item # others"
    and "s_distance item > max_edit_distance_dictionary self"
  shows "query self (PyStr qstring) = Inr (qstring, False)
       \<and> apply_query self None (PyStr qstring) = Inr (PyStr qstring)
       \<and> apply_query self (Some nr) (PyStr qstring) = Inr nr
       \<and> (\<forall>i vs out. df_getitem dataframe col_name = Inr vs \<and> i < length vs
             \<and> vs ! i = PyStr qstring
             \<and> get_fuzzy_column self dataframe col_name null_return = Inr out
           \<longrightarrow> length out = length vs
               \<and> out ! i = (case null_return of None \<Rightarrow> PyStr qstring | Some x \<Rightarrow> x))"
proof -
  have q: "query self (PyStr qstring) = Inr (qstring, False)"
    using assms by (simp add: query_def Let_def)
  have a: "\<And>n. apply_query self n (PyStr qstring)
             = Inr (case n of None \<Rightarrow> PyStr qstring | Some x \<Rightarrow> x)"
    by (simp add: apply_query_def q split: option.splits)
  have c: "length out = length vs
        \<and> out ! i = (case null_return of None \<Rightarrow> PyStr qstring | Some x \<Rightarrow> x)"
    if g: "df_getitem dataframe col_name = Inr vs" and i: "i < length vs"
      and v: "vs ! i = PyStr qstring"
      and o: "get_fuzzy_column self dataframe col_name null_return = Inr out"
    for i vs out
  proof -
    from o g have "series_apply (apply_query self null_return) vs = Inr out"
      by (auto simp: get_fuzzy_column_def split: if_splits option.splits pyval.splits)
    from series_apply_rows[OF this] i
    have "length out = length vs" and "apply_query self null_return (vs ! i) = Inr (out ! i)"
      by simp_all
    with v a[of null_return] show ?thesis by simp
  qed
  from q a[of None] a[of "Some nr"] c show ?thesis by simp blast
qed

theorem miss_returns_original_witness:
  "query (demo_fuzzy 3) (PyStr ''Not in there!'') = Inr (''Not in there!'', False)
   \<and> get_fuzzy_column (demo_fuzzy 3) demo_left ''sCol'' None
       = Inr [PyStr ''kitten'', PyStr ''Not in there!'']
   \<and> get_fuzzy_column (demo_fuzzy 3) demo_left ''sCol'' (Some (PyStr ''NULL''))
       = Inr [PyStr ''NULL'', PyStr ''NULL'']"
proof -
  have g1: "get_fuzzy_column (demo_fuzzy 3) demo_left ''sCol'' None
       = Inr [PyStr ''kitten'', PyStr ''Not in there!'']"
    by code_simp
  have g2: "get_fuzzy_column (demo_fuzzy 3) demo_left ''sCol'' (Some (PyStr ''NULL''))
       = Inr [PyStr ''NULL'', PyStr ''NULL'']"
    by code_simp
  have "query (demo_fuzzy 3) (PyStr ''Not in there!'') = Inr (''Not in there!'', False)"
    using miss_returns_original[of "demo_fuzzy 3"
        "[''sitting'' \<mapsto> ''Sitting'', ''kitten'' \<mapsto> ''kitten'']"
        "\<lambda>phrase. [\<lparr>s_term = ''sitting'', s_distance = 3\<rparr>]"
        "''Not in there!''" "\<lparr>s_term = ''sitting'', s_distance = 3\<rparr>" "[]"]
    by (simp add: demo_fuzzy_def)
  with g1 g2 show ?thesis by simp
qed

section \<open>The reverse index\<close>

lemma index_lines_general:
  "index_lines pp ls (index, lg) =
     (seen_from index pp (map str_strip ls),
      lg @ concat (map (notice_for (seen_from index pp (map str_strip ls)) pp) (map str_strip ls)))"
proof (induction ls arbitrary: index lg)
  case Nil
  then show ?case by (auto simp: seen_from_def fun_eq_iff split: option.splits)
next
  case (Cons line rest)
  let ?x = "str_strip line"
  let ?k = "pp ?x"
  let ?os = "map str_strip rest"
  show ?case
  proof (cases "index ?k")
    case None
    let ?i = "index(?k \<mapsto> ?x)"
    have seen: "seen_from ?i pp ?os = seen_from index pp (?x # ?os)"
      using None by (auto simp: seen_from_def fun_eq_iff split: option.splits)
    have step: "index_lines pp (line # rest) (index, lg) = index_lines pp rest (?i, lg)"
      using None by (simp add: Let_def)
    have head: "notice_for (seen_from index pp (?x # ?os)) pp ?x = []"
      using None by (simp add: notice_for_def seen_from_def)
    have "index_lines pp rest (?i, lg)
        = (seen_from ?i pp ?os, lg @ concat (map (notice_for (seen_from ?i pp ?os) pp) ?os))"
      by (rule Cons.IH)
    also have "\<dots> = (seen_from index pp (?x # ?os),
           lg @ concat (map (notice_for (seen_from index pp (?x # ?os)) pp) (?x # ?os)))"
      by (simp only: seen) (simp add: head)
    finally show ?thesis using step by simp
  next
    case (Some c)
    have seen: "seen_from index pp ?os = seen_from index pp (?x # ?os)"
      using Some by (auto simp: seen_from_def fun_eq_iff split: option.splits)
    show ?thesis
    proof (cases "c = ?x")
      case True
      have same: "index(?k \<mapsto> ?x) = index"
        using Some True by (auto simp: fun_eq_iff)
      have step: "index_lines pp (line # rest) (index, lg) = index_lines pp rest (index, lg)"
        using Some True same by (simp add: Let_def)
      have head: "notice_for (seen_from index pp (?x # ?os)) pp ?x = []"
        using Some True by (simp add: notice_for_def seen_from_def)
      have "index_lines pp rest (index, lg)
          = (seen_from index pp ?os, lg @ concat (map (notice_for (seen_from index pp ?os) pp) ?os))"
        by (rule Cons.IH)
      also have "\<dots> = (seen_from index pp (?x # ?os),
             lg @ concat (map (notice_for (seen_from index pp (?x # ?os)) pp) (?x # ?os)))"
        by (simp only: seen) (simp add: head)
      finally show ?thesis using step by simp
    next
      case False
      have step: "index_lines pp (line # rest) (index, lg)
          = index_lines pp rest (index, lg @ [conflict_record ?x c ?k])"
        using Some False by (simp add: Let_def)
      have head: "notice_for (seen_from index pp (?x # ?os)) pp ?x = [conflict_record ?x c ?k]"
        using Some False by (simp add: notice_for_def seen_from_def)
      have "index_lines pp rest (index, lg @ [conflict_record ?x c ?k])
          = (seen_from index pp ?os,
             (lg @ [conflict_record ?x c ?k])
               @ concat (map (notice_for (seen_from index pp ?os) pp) ?os))"
        by (rule Cons.IH)
      also have "\<dots> = (seen_from index pp (?x # ?os),
             lg @ concat (map (notice_for (seen_from index pp (?x # ?os)) pp) (?x # ?os)))"
        by (simp only: seen) (simp add: head)
      finally show ?thesis using step by simp
    qed
  qed
qed

lemma seen_from_empty: "seen_from Map.empty pp os = first_seen pp os"
  by (simp add: seen_from_def first_seen_def fun_eq_iff)

lemma index_lines_first_seen:
  "index_lines pp ls (Map.empty, []) =
     (first_seen pp (map str_strip ls), conflict_notices pp (map str_strip ls))"
  by (simp add: index_lines_general seen_from_empty conflict_notices_def)




section \<open>Stripping, lines and paths\<close>

lemma str_strip_ends:
  "str_strip s = [] \<or> (\<not> isspace (hd (str_strip s)) \<and> \<not> isspace (last (str_strip s)))"
proof (cases "str_strip s = []")
  case True
  then show ?thesis by simp
next
  case False
  let ?t = "dropWhile isspace s"
  let ?v = "dropWhile isspace (rev ?t)"
  have u: "str_strip s = rev ?v" by (simp add: str_strip_def)
  with False have v: "?v \<noteq> []" by simp
  then have hv: "\<not> isspace (hd ?v)" by (rule hd_dropWhile)
  have t: "?t \<noteq> []"
  proof
    assume a: "?t = []"
    have "?v = []" unfolding a by simp
    with v show False by contradiction
  qed
  then have ht: "\<not> isspace (hd ?t)" by (rule hd_dropWhile)
  have "rev ?t = takeWhile isspace (rev ?t) @ ?v" by simp
  then have "last (rev ?t) = last ?v" using v by (metis last_appendR)
  then have "last ?v = hd ?t" using t by (simp add: last_rev)
  with ht hv u v show ?thesis by (simp add: hd_rev last_rev)
qed

lemma str_strip_snoc:
  assumes "isspace c"
  shows "str_strip (s @ [c]) = str_strip s"
proof (cases "\<forall>x\<in>set s. isspace x")
  case True
  then have a: "\<forall>x\<in>set (s @ [c]). isspace x"
    using assms by simp
  have d1: "dropWhile isspace (s @ [c]) = []"
    by (rule dropWhile_eq_Nil_conv[THEN iffD2]) (rule a)
  have d2: "dropWhile isspace s = []"
    by (rule dropWhile_eq_Nil_conv[THEN iffD2]) (rule True)
  show ?thesis unfolding str_strip_def d1 d2 by simp
next
  case False
  then obtain x where "x \<in> set s" and "\<not> isspace x" by blast
  then have d: "dropWhile isspace (s @ [c]) = dropWhile isspace s @ [c]"
    by (rule dropWhile_append1)
  show ?thesis unfolding str_strip_def d using assms by simp
qed

lemma isspace_LF: "isspace LF"
  by (simp add: isspace_def LF_def)

lemma universal_newlines_id: "CR \<notin> set t \<Longrightarrow> universal_newlines t = t"
  by (induction t rule: universal_newlines.induct) auto

lemma readlines_line:
  assumes "LF \<notin> set x"
  shows "readlines (x @ LF # rest) = (x @ [LF]) # readlines rest"
proof -
  have d: "dropWhile (\<lambda>c. c \<noteq> LF) (x @ LF # rest) = LF # rest"
    using assms by (subst dropWhile_append2) auto
  have t: "takeWhile (\<lambda>c. c \<noteq> LF) (x @ LF # rest) = x"
    using assms by (subst takeWhile_append2) auto
  obtain c cs where e: "x @ LF # rest = c # cs" by (cases x) auto
  have "readlines (c # cs) = (takeWhile (\<lambda>c. c \<noteq> LF) (c # cs) @ [LF]) # readlines rest"
    using d unfolding e by (simp only: readlines.simps list.case)
  then show ?thesis using t unfolding e by simp
qed

lemma readlines_corpus:
  "\<forall>x\<in>set xs. LF \<notin> set x \<Longrightarrow> readlines (concat (map (\<lambda>x. x @ [LF]) xs)) = map (\<lambda>x. x @ [LF]) xs"
  by (induction xs) (simp_all add: readlines_line)

lemma file_lines_corpus_text:
  assumes "list_all (\<lambda>row. LF \<notin> set (py_str row) \<and> CR \<notin> set (py_str row)) rows"
  shows "file_lines (corpus_text rows) = map (\<lambda>row. py_str row @ [LF]) rows"
proof -
  have cr: "CR \<notin> set (corpus_text rows)"
    using assms by (auto simp: corpus_text_def list_all_iff CR_def LF_def)
  have "readlines (concat (map (\<lambda>x. x @ [LF]) (map py_str rows))) = map (\<lambda>x. x @ [LF]) (map py_str rows)"
    by (rule readlines_corpus) (use assms in \<open>auto simp: list_all_iff\<close>)
  then have "readlines (corpus_text rows) = map (\<lambda>row. py_str row @ [LF]) rows"
    by (simp add: corpus_text_def comp_def)
  with cr show ?thesis by (simp add: file_lines_def universal_newlines_id)
qed

lemma basename_no_slash: "CHR ''/'' \<notin> set (basename p)"
  by (auto simp: basename_def dest: set_takeWhileD)

lemma basename_path_join:
  assumes "CHR ''/'' \<notin> set b" and "b \<noteq> []"
  shows "basename (path_join a b) = b"
proof -
  from assms have hb: "hd b \<noteq> CHR ''/''" by (cases b) auto
  have tk: "\<And>r. r = [] \<or> hd r = CHR ''/'' \<Longrightarrow>
      takeWhile (\<lambda>c. c \<noteq> CHR ''/'') (rev b @ r) = rev b"
  proof -
    fix r :: string assume "r = [] \<or> hd r = CHR ''/''"
    then have "takeWhile (\<lambda>c. c \<noteq> CHR ''/'') r = []" by (cases r) auto
    then show "takeWhile (\<lambda>c. c \<noteq> CHR ''/'') (rev b @ r) = rev b"
      using assms(1) by (subst takeWhile_append2) auto
  qed
  show ?thesis
  proof (cases "a = [] \<or> last a = CHR ''/''")
    case True
    then have "rev a = [] \<or> hd (rev a) = CHR ''/''" by (auto simp: hd_rev)
    from tk[OF this] have "basename (a @ b) = b" by (simp add: basename_def)
    with True hb assms(2) show ?thesis by (simp add: path_join_def)
  next
    case False
    have "basename (a @ ''/'' @ b) = b"
      using tk[of "CHR ''/'' # rev a"] by (simp add: basename_def)
    with False hb assms(2) show ?thesis by (simp add: path_join_def)
  qed
qed

lemma processed_corpus_differs:
  "path_join (dirname p) (''preprocessed_'' @ basename p) \<noteq> p"
proof
  assume e: "path_join (dirname p) (''preprocessed_'' @ basename p) = p"
  have "CHR ''/'' \<notin> set (''preprocessed_'' @ basename p)"
    using basename_no_slash[of p] by simp
  then have "basename (path_join (dirname p) (''preprocessed_'' @ basename p)) = ''preprocessed_'' @ basename p"
    by (rule basename_path_join) simp
  with e have "basename p = ''preprocessed_'' @ basename p" by simp
  then have "length (basename p) = length (''preprocessed_'' @ basename p)" by (rule arg_cong)
  then show False by simp
qed

section \<open>Building the object\<close>

lemma check_corpus_found:
  "corpus self = Some path \<Longrightarrow> files w path = Some text \<Longrightarrow> check_corpus self w = (Inr (), w)"
  by (simp add: check_corpus_def)

lemma preprocess_corpus_run:
  assumes "\<not> preprocess_flag self" and "corpus self = Some path" and "files w path = Some text"
  shows "preprocess_corpus self w =
     (Inr (self\<lparr>unprocessed_corpus := Some path,
                corpus := Some (path_join (dirname path) (''preprocessed_'' @ basename path)),
                preprocess_flag := True\<rparr>),
      write_file (path_join (dirname path) (''preprocessed_'' @ basename path))
        (concat (map (\<lambda>line. preprocesser self line @ [LF]) (file_lines text))) w)"
  using assms by (simp add: preprocess_corpus_def check_corpus_found Let_def)

lemma create_symspell_dict_run:
  assumes "corpus self = Some path" and "files w path = Some text"
    and "create_symspell_dict SymSpell self w = (Inr self', w')"
  shows "w' = w \<and> (\<exists>lookup. self' = self\<lparr>sym_spell := Some lookup\<rparr>)"
  using assms
  by (auto simp: create_symspell_dict_def check_corpus_found split: sum.splits)

lemma create_index_run:
  assumes "corpus self = Some path" and "files w path = Some text"
    and "index_dictionary self = None" and "preprocess_flag self"
    and "unprocessed_corpus self = Some upath" and "files w upath = Some ucf"
  shows "create_index self w =
     (Inr (self\<lparr>index_dictionary :=
                  Some (fst (index_lines (preprocesser self) (file_lines ucf) (Map.empty, [])))\<rparr>),
      w\<lparr>logged := logged w @ snd (index_lines (preprocesser self) (file_lines ucf) (Map.empty, []))\<rparr>)"
  using assms by (simp add: create_index_def check_corpus_found Let_def)

lemma Fuzzy_init_built:
  assumes ok: "Fuzzy_init SymSpell (Some path) pp_arg m pl w = (Inr obj, w')"
    and fl: "files w path = Some text"
  shows "index_dictionary obj
           = Some (fst (index_lines (case pp_arg of None \<Rightarrow> preprocess PreProcessor_init | Some p \<Rightarrow> p)
                          (file_lines text) (Map.empty, [])))
       \<and> preprocesser obj = (case pp_arg of None \<Rightarrow> preprocess PreProcessor_init | Some p \<Rightarrow> p)
       \<and> max_edit_distance_dictionary obj = m
       \<and> sym_spell obj \<noteq> None
       \<and> logged w' = logged w @ snd (index_lines (case pp_arg of None \<Rightarrow> preprocess PreProcessor_init | Some p \<Rightarrow> p)
                          (file_lines text) (Map.empty, []))"
proof -
  let ?pp = "case pp_arg of None \<Rightarrow> preprocess PreProcessor_init | Some p \<Rightarrow> p"
  let ?self = "\<lparr>preprocess_flag = False, unprocessed_corpus = None, sym_spell = None,
      index_dictionary = None, corpus = Some path, max_edit_distance_dictionary = m,
      prefix_length = pl, preprocesser = ?pp\<rparr>"
  let ?P = "path_join (dirname path) (''preprocessed_'' @ basename path)"
  let ?pcf = "concat (map (\<lambda>line. ?pp line @ [LF]) (file_lines text))"
  let ?self2 = "?self\<lparr>unprocessed_corpus := Some path, corpus := Some ?P, preprocess_flag := True\<rparr>"
  let ?w2 = "write_file ?P ?pcf w"
  have c1: "check_corpus ?self w = (Inr (), w)"
    by (rule check_corpus_found[OF _ fl]) simp
  have c2: "preprocess_corpus ?self w = (Inr ?self2, ?w2)"
    using preprocess_corpus_run[of "?self" path w "text"] fl by simp
  have f2: "files ?w2 ?P = Some ?pcf" by (simp add: write_file_def)
  have f2': "files ?w2 path = Some text"
    using fl processed_corpus_differs[of path] by (simp add: write_file_def)
  from ok c1 c2 have
    "(case create_symspell_dict SymSpell ?self2 ?w2 of
        (Inl e, w3) \<Rightarrow> (Inl e, w3)
      | (Inr self3, w3) \<Rightarrow> create_index self3 w3) = (Inr obj, w')"
    by (simp add: Fuzzy_init_def Let_def)
  then obtain self3 w3 where c3: "create_symspell_dict SymSpell ?self2 ?w2 = (Inr self3, w3)"
    and c4: "create_index self3 w3 = (Inr obj, w')"
    by (auto split: prod.splits sum.splits)
  from create_symspell_dict_run[OF _ f2 c3] obtain lookup where w3: "w3 = ?w2"
    and s3: "self3 = ?self2\<lparr>sym_spell := Some lookup\<rparr>"
    by auto
  have "create_index self3 ?w2 =
     (Inr (self3\<lparr>index_dictionary := Some (fst (index_lines (preprocesser self3) (file_lines text) (Map.empty, [])))\<rparr>),
      ?w2\<lparr>logged := logged ?w2 @ snd (index_lines (preprocesser self3) (file_lines text) (Map.empty, []))\<rparr>)"
    by (rule create_index_run[OF _ f2 _ _ _ f2']) (simp_all add: s3)
  with c4 w3 have obj: "obj = self3\<lparr>index_dictionary := Some (fst (index_lines (preprocesser self3) (file_lines text) (Map.empty, [])))\<rparr>"
    and w': "w' = ?w2\<lparr>logged := logged ?w2 @ snd (index_lines (preprocesser self3) (file_lines text) (Map.empty, []))\<rparr>"
    by simp_all
  have p3: "preprocesser self3 = ?pp" by (simp add: s3)
  show ?thesis
    unfolding obj w' p3 by (simp add: s3 write_file_def)
qed

lemma query_found:
  assumes "query obj v = Inr (out, True)" and "index_dictionary obj = Some index"
  shows "\<exists>k. index k = Some out"
  using assms
  by (auto simp: query_def Let_def split: pyval.splits option.splits list.splits if_splits)

lemma first_seen_mem: "first_seen pp os k = Some v \<Longrightarrow> v \<in> set os"
  by (auto simp: first_seen_def find_Some_iff)

text \<open>
  Claim C10, amended. The dictionary file holds the string forms of the rows of the right
  column, one after the other, each followed by a line feed. When the object built from that
  file reports a match, the string it returns is a line of the file with leading and trailing
  whitespace removed: it neither starts nor ends with a whitespace character. When no row's
  string form contains a line feed or a carriage return, the lines are the rows, and the string
  returned is the stripped string form of a row of the right column.
\<close>

theorem hit_is_stripped_line:
  assumes "files w dict_name = Some (corpus_text rows)"
    and "Fuzzy_init SymSpell (Some dict_name) pp_arg max_edit_distance pl w = (Inr fuzz_obj, w')"
    and "query fuzz_obj v = Inr (out, True)"
  shows "(out = [] \<or> (\<not> isspace (hd out) \<and> \<not> isspace (last out)))
       \<and> out \<in> set (map str_strip (file_lines (corpus_text rows)))
       \<and> (list_all (\<lambda>row. LF \<notin> set (py_str row) \<and> CR \<notin> set (py_str row)) rows
            \<longrightarrow> out \<in> set (map (\<lambda>row. str_strip (py_str row)) rows))"
proof -
  let ?pp = "case pp_arg of None \<Rightarrow> preprocess PreProcessor_init | Some p \<Rightarrow> p"
  let ?lines = "file_lines (corpus_text rows)"
  from Fuzzy_init_built[OF assms(2) assms(1)]
  have "index_dictionary fuzz_obj = Some (fst (index_lines ?pp ?lines (Map.empty, [])))"
    by simp
  then have idx: "index_dictionary fuzz_obj = Some (first_seen ?pp (map str_strip ?lines))"
    by (simp add: index_lines_first_seen)
  from query_found[OF assms(3) idx] obtain k
    where "first_seen ?pp (map str_strip ?lines) k = Some out" by blast
  then have m: "out \<in> set (map str_strip ?lines)" by (rule first_seen_mem)
  then obtain l where out: "out = str_strip l" by auto
  have e: "out = [] \<or> (\<not> isspace (hd out) \<and> \<not> isspace (last out))"
    unfolding out by (rule str_strip_ends)
  have r: "out \<in> set (map (\<lambda>row. str_strip (py_str row)) rows)"
    if nl: "list_all (\<lambda>row. LF \<notin> set (py_str row) \<and> CR \<notin> set (py_str row)) rows"
  proof -
    have "map str_strip ?lines = map (\<lambda>row. str_strip (py_str row)) rows"
      by (simp add: file_lines_corpus_text[OF nl] str_strip_snoc[OF isspace_LF] comp_def)
    with m show ?thesis by simp
  qed
  from e m r show ?thesis by blast
qed

theorem hit_is_stripped_line_witness:
  "files staged_world ''RsCol_dict.txt'' = Some (corpus_text [PyStr ''kitten'', PyStr ''  Sitting ''])
   \<and> \<not> isl (fst (Fuzzy_init exact_symspell (Some ''RsCol_dict.txt'') None 2 7 staged_world))
   \<and> query (projr (fst (Fuzzy_init exact_symspell (Some ''RsCol_dict.txt'') None 2 7 staged_world)))
        (PyStr ''SITTING!'') = Inr (''Sitting'', True)
   \<and> ''Sitting'' \<in> set (map (\<lambda>row. str_strip (py_str row)) [PyStr ''kitten'', PyStr ''  Sitting ''])"
proof -
  let ?r = "Fuzzy_init exact_symspell (Some ''RsCol_dict.txt'') None 2 7 staged_world"
  have f: "files staged_world ''RsCol_dict.txt'' = Some (corpus_text [PyStr ''kitten'', PyStr ''  Sitting ''])"
    by (simp add: staged_world_def write_file_def)
  have i: "\<not> isl (fst ?r)" by code_simp
  then have b: "?r = (Inr (projr (fst ?r)), snd ?r)"
    by (metis sum.collapse(2) prod.collapse)
  have q: "query (projr (fst ?r)) (PyStr ''SITTING!'') = Inr (''Sitting'', True)"
    by code_simp
  have nl: "list_all (\<lambda>row. LF \<notin> set (py_str row) \<and> CR \<notin> set (py_str row)) [PyStr ''kitten'', PyStr ''  Sitting '']"
    by (simp add: LF_def CR_def)
  from hit_is_stripped_line[OF f b q] nl f i q show ?thesis by blast
qed

theorem hit_is_stripped_line_counterexample:
  "fst (get_fuzzy_columns exact_symspell [(''c'', [PyStr ''A''])] [(''c'', [PyStr (''a'' @ [LF] @ ''b'')])]
          (ColList [''c'']) None (Some (PyStr ''NULL'')) None 2 empty_world) = None
   \<and> fst (snd (get_fuzzy_columns exact_symspell [(''c'', [PyStr ''A''])] [(''c'', [PyStr (''a'' @ [LF] @ ''b'')])]
          (ColList [''c'']) None (Some (PyStr ''NULL'')) None 2 empty_world))
       = [(''c'', [PyStr ''A'']), (''fuzzy_c'', [PyStr ''a''])]
   \<and> ''a'' \<notin> set (map (\<lambda>row. str_strip (py_str row)) [PyStr (''a'' @ [LF] @ ''b'')])"
  by code_simp

section \<open>The entry point\<close>

lemma fuzzy_loop_length:
  "fuzzy_loop SymSpell L R right_cols nr pp m i rest acc w = (Inr cols, w')
   \<Longrightarrow> length cols = length acc + length rest"
proof (induction rest arbitrary: i acc w)
  case Nil
  then show ?case by simp
next
  case (Cons left_col rest)
  from Cons.prems obtain fuzzy_col w5 where
    "fuzzy_loop SymSpell L R right_cols nr pp m (Suc i) rest (acc @ [fuzzy_col]) w5 = (Inr cols, w')"
    by (auto simp: Let_def split: if_splits sum.splits prod.splits)
  from Cons.IH[OF this] show ?case by simp
qed



text \<open>
  Claim C8, amended. When \<^verbatim>\<open>left_cols\<close> holds a column that is not in the left table, the
  entry point fails with a LookupError whose message names the first such column; when all
  of them are there and the given \<^verbatim>\<open>right_cols\<close> holds a column that is not in the right
  table, it fails with a LookupError that names the first such column. In both cases nothing
  has been done: the table and the files are as before. These messages do not list the
  columns of the table. The message that lists them all is the one of the method
  \<^verbatim>\<open>get_fuzzy_column\<close>, called on a table without the requested column.
\<close>

theorem missing_column_errors:
  "(find (\<lambda>col. \<not> df_contains L col) left_cols = Some c \<longrightarrow>
      get_fuzzy_columns SymSpell L R (ColList left_cols) right_cols_arg nr pp m w
        = (Some (LookupError (c @ '' in left_cols not in left_dataframe columns'')), L, w))
   \<and> (find (\<lambda>col. \<not> df_contains L col) left_cols = None
        \<and> find (\<lambda>col. \<not> df_contains R col) right_cols = Some c \<longrightarrow>
      get_fuzzy_columns SymSpell L R (ColList left_cols) (Some (ColList right_cols)) nr pp m w
        = (Some (LookupError (c @ '' in right_cols not in right_dataframe columns'')), L, w))
   \<and> (\<not> df_contains D col_name \<longrightarrow>
      get_fuzzy_column self D col_name nr
        = Inl (LookupError (str_join '' '' ((col_name @ '' not in dataframe columns:'') # columns D))))"
  by (simp add: get_fuzzy_columns_def get_fuzzy_column_def)

lemma get_fuzzy_columns_outcome:
  "(\<exists>e w'. get_fuzzy_columns SymSpell L R left_cols_arg right_cols_arg nr pp m w = (Some e, L, w'))
   \<or> (\<exists>left_cols right_cols fuzzy_cols w'.
         left_cols_arg = ColList left_cols
         \<and> fuzzy_loop SymSpell L R right_cols nr pp m 0 left_cols [] w = (Inr fuzzy_cols, w')
         \<and> get_fuzzy_columns SymSpell L R left_cols_arg right_cols_arg nr pp m w
              = (None, add_columns L left_cols fuzzy_cols, w'))"
proof (cases left_cols_arg)
  case (NotList ty)
  then show ?thesis by (simp add: get_fuzzy_columns_def)
next
  case (ColList left_cols)
  show ?thesis
  proof (cases "find (\<lambda>col. \<not> df_contains L col) left_cols")
    case (Some col)
    with ColList show ?thesis by (simp add: get_fuzzy_columns_def)
  next
    case None
    define checked where "checked =
      (case right_cols_arg of
         None \<Rightarrow> Inr left_cols
       | Some (NotList ty) \<Rightarrow> Inl (ValueError (''right_cols must be of type list. Given '' @ ty))
       | Some (ColList right_cols) \<Rightarrow>
           (case find (\<lambda>col. \<not> df_contains R col) right_cols of
              Some col \<Rightarrow> Inl (LookupError (col @ '' in right_cols not in right_dataframe columns''))
            | None \<Rightarrow> Inr right_cols))"
    have unf: "get_fuzzy_columns SymSpell L R left_cols_arg right_cols_arg nr pp m w =
      (case checked of
         Inl e \<Rightarrow> (Some e, L, w)
       | Inr right_cols \<Rightarrow>
           (case nr of
              Some (PyOther r t) \<Rightarrow>
                (Some (ValueError (''null_return is type '' @ t @ '' not '' @ str_type)), L, w)
            | _ \<Rightarrow>
                if m < 1
                then (Some (ValueError (''max_edit_distance must be > 1, given '' @ str_int m)), L, w)
                else (case fuzzy_loop SymSpell L R right_cols nr pp m 0 left_cols [] w of
                        (Inl e, w') \<Rightarrow> (Some e, L, w')
                      | (Inr fuzzy_cols, w') \<Rightarrow> (None, add_columns L left_cols fuzzy_cols, w'))))"
      unfolding get_fuzzy_columns_def checked_def ColList cols.case None option.case ..
    show ?thesis
    proof (cases checked)
      case (Inl e)
      then show ?thesis by (simp add: unf)
    next
      case (Inr right_cols)
      obtain res w' where lp: "fuzzy_loop SymSpell L R right_cols nr pp m 0 left_cols [] w = (res, w')"
        by (cases "fuzzy_loop SymSpell L R right_cols nr pp m 0 left_cols [] w")
      have gf: "get_fuzzy_columns SymSpell L R left_cols_arg right_cols_arg nr pp m w =
          (case res of
             Inl e \<Rightarrow> (Some e, L, w')
           | Inr fuzzy_cols \<Rightarrow> (None, add_columns L left_cols fuzzy_cols, w'))"
        if "\<not> m < 1" and "nr = None \<or> (\<exists>s. nr = Some (PyStr s))"
        using that Inr lp by (auto simp: unf)
      have fin: ?thesis if "\<not> m < 1" and "nr = None \<or> (\<exists>s. nr = Some (PyStr s))"
      proof (cases res)
        case (Inl e)
        with gf[OF that] have "get_fuzzy_columns SymSpell L R left_cols_arg right_cols_arg nr pp m w
            = (Some e, L, w')" by simp
        then show ?thesis by blast
      next
        case (Inr fuzzy_cols)
        with gf[OF that] have "get_fuzzy_columns SymSpell L R left_cols_arg right_cols_arg nr pp m w
            = (None, add_columns L left_cols fuzzy_cols, w')" by simp
        with ColList lp Inr show ?thesis by blast
      qed
      show ?thesis
      proof (cases "m < 1")
        case True
        have "\<exists>e. get_fuzzy_columns SymSpell L R left_cols_arg right_cols_arg nr pp m w = (Some e, L, w)"
          unfolding unf using True Inr by (simp split: option.splits pyval.splits)
        then show ?thesis by blast
      next
        case False
        show ?thesis
        proof (cases nr)
          case None
          with False fin show ?thesis by blast
        next
          case (Some x)
          show ?thesis
          proof (cases x)
            case (PyStr s)
            with Some False fin show ?thesis by blast
          next
            case (PyOther r t)
            have "get_fuzzy_columns SymSpell L R left_cols_arg right_cols_arg nr pp m w
                = (Some (ValueError (''null_return is type '' @ t @ '' not '' @ str_type)), L, w)"
              unfolding unf using Some PyOther Inr by simp
            then show ?thesis by blast
          qed
        qed
      qed
    qed
  qed
qed

text \<open>
  Claim C9. Whenever the entry point raises an exception, in the checks or in the processing
  of any pair, the left table is as it was before the call. When it returns, every pair has
  been processed: there is one result column for each entry of \<^verbatim>\<open>left_cols\<close>, and the left
  table is the old one with these columns written into it.
\<close>

theorem error_leaves_left_table:
  "(fst (get_fuzzy_columns SymSpell L R left_cols_arg right_cols_arg nr pp m w) \<noteq> None \<longrightarrow>
      fst (snd (get_fuzzy_columns SymSpell L R left_cols_arg right_cols_arg nr pp m w)) = L)
   \<and> (fst (get_fuzzy_columns SymSpell L R left_cols_arg right_cols_arg nr pp m w) = None \<longrightarrow>
      (\<exists>left_cols fuzzy_cols. left_cols_arg = ColList left_cols
          \<and> length fuzzy_cols = length left_cols
          \<and> fst (snd (get_fuzzy_columns SymSpell L R left_cols_arg right_cols_arg nr pp m w))
              = add_columns L left_cols fuzzy_cols))"
proof -
  from get_fuzzy_columns_outcome[of SymSpell L R left_cols_arg right_cols_arg nr pp m w]
  show ?thesis
  proof
    assume "\<exists>e w'. get_fuzzy_columns SymSpell L R left_cols_arg right_cols_arg nr pp m w = (Some e, L, w')"
    then show ?thesis by auto
  next
    assume "\<exists>left_cols right_cols fuzzy_cols w'.
         left_cols_arg = ColList left_cols
         \<and> fuzzy_loop SymSpell L R right_cols nr pp m 0 left_cols [] w = (Inr fuzzy_cols, w')
         \<and> get_fuzzy_columns SymSpell L R left_cols_arg right_cols_arg nr pp m w
              = (None, add_columns L left_cols fuzzy_cols, w')"
    then obtain left_cols right_cols fuzzy_cols w' where a: "left_cols_arg = ColList left_cols"
      and lp: "fuzzy_loop SymSpell L R right_cols nr pp m 0 left_cols [] w = (Inr fuzzy_cols, w')"
      and r: "get_fuzzy_columns SymSpell L R left_cols_arg right_cols_arg nr pp m w
              = (None, add_columns L left_cols fuzzy_cols, w')"
      by blast
    from fuzzy_loop_length[OF lp] have "length fuzzy_cols = length left_cols" by simp
    with a r show ?thesis by auto
  qed
qed

theorem error_leaves_left_table_witness:
  "fst (get_fuzzy_columns exact_symspell demo_mixed demo_right (ColList [''sCol'', ''nCol''])
          (Some (ColList [''RsCol'', ''RsCol''])) None None 2 empty_world)
     = Some (ValueError (''5 is type <class '' @ [CHR 0x27] @ ''int'' @ [CHR 0x27] @ ''> not string''))
   \<and> fst (snd (get_fuzzy_columns exact_symspell demo_mixed demo_right (ColList [''sCol'', ''nCol''])
          (Some (ColList [''RsCol'', ''RsCol''])) None None 2 empty_world)) = demo_mixed
   \<and> fst (get_fuzzy_columns exact_symspell demo_mixed demo_right (ColList [''sCol''])
          (Some (ColList [''RsCol''])) None None 2 empty_world) = None
   \<and> fst (snd (get_fuzzy_columns exact_symspell demo_mixed demo_right (ColList [''sCol''])
          (Some (ColList [''RsCol''])) None None 2 empty_world))
       = demo_mixed @ [(''fuzzy_sCol'', [PyStr ''kitten'', PyStr ''Sitting''])]"
proof -
  have e: "fst (get_fuzzy_columns exact_symspell demo_mixed demo_right (ColList [''sCol'', ''nCol''])
          (Some (ColList [''RsCol'', ''RsCol''])) None None 2 empty_world)
     = Some (ValueError (''5 is type <class '' @ [CHR 0x27] @ ''int'' @ [CHR 0x27] @ ''> not string''))"
    by code_simp
  have s: "fst (get_fuzzy_columns exact_symspell demo_mixed demo_right (ColList [''sCol''])
          (Some (ColList [''RsCol''])) None None 2 empty_world) = None"
    by code_simp
  have t: "fst (snd (get_fuzzy_columns exact_symspell demo_mixed demo_right (ColList [''sCol''])
          (Some (ColList [''RsCol''])) None None 2 empty_world))
       = demo_mixed @ [(''fuzzy_sCol'', [PyStr ''kitten'', PyStr ''Sitting''])]"
    by code_simp
  from e error_leaves_left_table[of exact_symspell demo_mixed demo_right "ColList [''sCol'', ''nCol'']"
      "Some (ColList [''RsCol'', ''RsCol''])" None None 2 empty_world]
  have "fst (snd (get_fuzzy_columns exact_symspell demo_mixed demo_right (ColList [''sCol'', ''nCol''])
          (Some (ColList [''RsCol'', ''RsCol''])) None None 2 empty_world)) = demo_mixed"
    by simp
  with e s t show ?thesis by simp
qed



theorem missing_column_errors_witness:
  "find (\<lambda>col. \<not> df_contains demo_left col) [''sCol'', ''nope''] = Some ''nope''
   \<and> get_fuzzy_columns exact_symspell demo_left demo_right (ColList [''sCol'', ''nope'']) None None None 2 empty_world
       = (Some (LookupError ''nope in left_cols not in left_dataframe columns''), demo_left, empty_world)
   \<and> find (\<lambda>col. \<not> df_contains demo_left col) [''sCol''] = None
   \<and> find (\<lambda>col. \<not> df_contains demo_right col) [''RsCol'', ''nope''] = Some ''nope''
   \<and> get_fuzzy_columns exact_symspell demo_left demo_right (ColList [''sCol''])
        (Some (ColList [''RsCol'', ''nope''])) None None 2 empty_world
       = (Some (LookupError ''nope in right_cols not in right_dataframe columns''), demo_left, empty_world)
   \<and> \<not> df_contains demo_left ''nope''
   \<and> get_fuzzy_column (demo_fuzzy 2) demo_left ''nope'' None
       = Inl (LookupError ''nope not in dataframe columns: ID sCol'')"
proof -
  have a: "find (\<lambda>col. \<not> df_contains demo_left col) [''sCol'', ''nope''] = Some ''nope''" by code_simp
  have b1: "find (\<lambda>col. \<not> df_contains demo_left col) [''sCol''] = None" by code_simp
  have b2: "find (\<lambda>col. \<not> df_contains demo_right col) [''RsCol'', ''nope''] = Some ''nope''" by code_simp
  have c: "\<not> df_contains demo_left ''nope''" by code_simp
  have j: "str_join '' '' ((''nope'' @ '' not in dataframe columns:'') # columns demo_left)
      = ''nope not in dataframe columns: ID sCol''" by code_simp
  from missing_column_errors[of demo_left "[''sCol'', ''nope'']" "''nope''" exact_symspell demo_right
      None None None 2 empty_world "[''RsCol'', ''nope'']" demo_left "''nope''" "demo_fuzzy 2"] a c j
  have p1: "get_fuzzy_columns exact_symspell demo_left demo_right (ColList [''sCol'', ''nope'']) None None None 2 empty_world
       = (Some (LookupError ''nope in left_cols not in left_dataframe columns''), demo_left, empty_world)"
    and p3: "get_fuzzy_column (demo_fuzzy 2) demo_left ''nope'' None
       = Inl (LookupError ''nope not in dataframe columns: ID sCol'')"
    by simp_all
  from missing_column_errors[of demo_left "[''sCol'']" "''nope''" exact_symspell demo_right
      None None None 2 empty_world "[''RsCol'', ''nope'']" demo_left "''nope''" "demo_fuzzy 2"] b1 b2
  have p2: "get_fuzzy_columns exact_symspell demo_left demo_right (ColList [''sCol''])
        (Some (ColList [''RsCol'', ''nope''])) None None 2 empty_world
       = (Some (LookupError ''nope in right_cols not in right_dataframe columns''), demo_left, empty_world)"
    by simp
  from a b1 b2 c p1 p2 p3 show ?thesis by simp
qed

theorem missing_column_errors_counterexample:
  "\<not> df_contains demo_left ''nope''
   \<and> fst (get_fuzzy_columns exact_symspell demo_left demo_right (ColList [''nope'']) None None None 2 empty_world)
       = Some (LookupError ''nope in left_cols not in left_dataframe columns'')
   \<and> columns demo_left = [''ID'', ''sCol'']
   \<and> \<not> sublist ''ID'' ''nope in left_cols not in left_dataframe columns''
   \<and> \<not> sublist ''sCol'' ''nope in left_cols not in left_dataframe columns''"
  by code_simp

end
